theory Spec2Isabelle
  imports Main "HOL-Library.Multiset"
begin

section \<open>The store: arrays and builders are objects with identity\<close>

text \<open>
  The library passes JavaScript arrays and builder objects around by reference, and two of
  its operations mutate them (\<^verbatim>\<open>Array.prototype.sort\<close> in \<^verbatim>\<open>OrderBy.apply\<close>,
  \<^verbatim>\<open>push\<close> and the assignment to \<^verbatim>\<open>this.orderBy\<close> in the builder). An array value of
  type \<^verbatim>\<open>T[]\<close> is therefore an address into a store of arrays; the store maps every
  address to the current contents of the array living there and counts the addresses
  handed out so far. Items of the generic type \<^verbatim>\<open>T\<close> are the elements of \<open>'a\<close>; equality on
  \<open>'a\<close> is the equality \<^verbatim>\<open>Set\<close> and \<^verbatim>\<open>includes\<close> use (SameValueZero: identity on objects).
\<close>

type_synonym addr = nat

record 'a arrays =
  cells :: "addr \<Rightarrow> 'a list"
  fresh :: addr

text \<open>An array literal or a built-in returning a new array takes the next free address.\<close>

definition newArray :: "'a list \<Rightarrow> 'a arrays \<Rightarrow> addr \<times> 'a arrays" where
  "newArray xs h = (fresh h, h\<lparr>cells := (cells h)(fresh h := xs), fresh := Suc (fresh h)\<rparr>)"

text \<open>
  A call either returns, or throws (the library catches nothing, so a throw of a
  caller-supplied criteria travels up unchanged and ends every call above it; the store
  is not followed past a throw), or has not finished within the nesting depth granted to
  it.
\<close>

datatype error = Thrown string

datatype 'x outcome = Return 'x | Throw error | OutOfFuel

fun andThen :: "'x outcome \<Rightarrow> ('x \<Rightarrow> 'y outcome) \<Rightarrow> 'y outcome" where
  "andThen (Return x) f = f x"
| "andThen (Throw e) f = Throw e"
| "andThen OutOfFuel f = OutOfFuel"

section \<open>The built-ins of the host language that the library calls\<close>

text \<open>
  A callback handed to \<^verbatim>\<open>Array.prototype.filter\<close> is called with the item, its index and
  the array being filtered. It is the caller's code: it may read and change arrays, and it
  may throw.
\<close>

type_synonym 'a predicate = "'a \<Rightarrow> nat \<Rightarrow> addr \<Rightarrow> 'a arrays \<Rightarrow> error + bool \<times> 'a arrays"

text \<open>
  \<^verbatim>\<open>Array.prototype.filter\<close>: the length is read once; then, for each index \<open>k\<close> below it
  that the array still has, the element found there at that moment is passed to the
  callback as \<^verbatim>\<open>callbackfn(kValue, k, obj)\<close> and, when the answer is true, appended to the
  result. A throw of the callback ends the loop. The result is a new array.
\<close>

fun filterLoop ::
  "'a predicate \<Rightarrow> addr \<Rightarrow> nat \<Rightarrow> nat \<Rightarrow> 'a list \<Rightarrow> 'a arrays \<Rightarrow> error + 'a list \<times> 'a arrays" where
  "filterLoop callbackfn obj k 0 kept h = Inr (kept, h)"
| "filterLoop callbackfn obj k (Suc remaining) kept h =
     (if k < length (cells h obj) then
        (case callbackfn (cells h obj ! k) k obj h of
           Inl e \<Rightarrow> Inl e
         | Inr (selected, h') \<Rightarrow>
             filterLoop callbackfn obj (Suc k) remaining
               (if selected then kept @ [cells h obj ! k] else kept) h')
      else filterLoop callbackfn obj (Suc k) remaining kept h)"

definition arrayFilter :: "'a predicate \<Rightarrow> addr \<Rightarrow> 'a arrays \<Rightarrow> error + addr \<times> 'a arrays" where
  "arrayFilter callbackfn obj h =
     (case filterLoop callbackfn obj 0 (length (cells h obj)) [] h of
        Inl e \<Rightarrow> Inl e
      | Inr (kept, h') \<Rightarrow> Inr (newArray kept h'))"

text \<open>\<^verbatim>\<open>Array.prototype.includes\<close>: a linear search with SameValueZero.\<close>

fun arrayIncludes :: "'a list \<Rightarrow> 'a \<Rightarrow> bool" where
  "arrayIncludes [] item = False"
| "arrayIncludes (x # xs) item = (if x = item then True else arrayIncludes xs item)"

text \<open>
  \<^verbatim>\<open>new Set(iterable)\<close> followed by spreading the set: a \<^verbatim>\<open>Set\<close> keeps its members in
  insertion order, and adding a value that is already a member changes nothing.
\<close>

definition setAdd :: "'a list \<Rightarrow> 'a \<Rightarrow> 'a list" where
  "setAdd members x = (if arrayIncludes members x then members else members @ [x])"

definition newSet :: "'a list \<Rightarrow> 'a list" where
  "newSet xs = foldl setAdd [] xs"

text \<open>
  \<^verbatim>\<open>Array.prototype.sort(comparefn)\<close>: the language standard asks for a stable sort that
  places \<open>a\<close> before \<open>b\<close> when \<open>comparefn a b < 0\<close> and after it when \<open>comparefn a b > 0\<close>; for a
  consistent comparator every such sort gives the same array. The model inserts the
  elements from the right, each one in front of the first element it does not have to
  follow.
\<close>

fun sortInsert :: "('a \<Rightarrow> 'a \<Rightarrow> int) \<Rightarrow> 'a \<Rightarrow> 'a list \<Rightarrow> 'a list" where
  "sortInsert comparefn x [] = [x]"
| "sortInsert comparefn x (y # ys) =
     (if comparefn x y \<le> 0 then x # y # ys else y # sortInsert comparefn x ys)"

definition arraySort :: "('a \<Rightarrow> 'a \<Rightarrow> int) \<Rightarrow> 'a list \<Rightarrow> 'a list" where
  "arraySort comparefn xs = foldr (sortInsert comparefn) xs []"

section \<open>OrderBy (utils.ts)\<close>

text \<open>
  Modelled from the spec: the type \<^verbatim>\<open>OrderDirection\<close> (imported from \<^verbatim>\<open>./type\<close>, which is
  not among the sources); the spec gives it as \<^verbatim>\<open>"asc" | "desc"\<close>.
\<close>

datatype OrderDirection = asc | desc

text \<open>
  \<^verbatim>\<open>property\<close> is a key of \<^verbatim>\<open>T\<close>; the model keeps the field access \<^verbatim>\<open>a[this.property]\<close>, a
  function from items to the values of that field. The values are totally ordered by
  \<^verbatim>\<open><\<close> (numbers other than NaN, strings).
\<close>

record ('a, 'k) OrderBy =
  property :: "'a \<Rightarrow> 'k"
  direction :: OrderDirection

definition newOrderBy :: "('a \<Rightarrow> 'k) \<Rightarrow> OrderDirection option \<Rightarrow> ('a, 'k) OrderBy" where
  "newOrderBy p d = \<lparr>property = p, direction = (case d of None \<Rightarrow> asc | Some d' \<Rightarrow> d')\<rparr>"

definition compareFn :: "('a, 'k::linorder) OrderBy \<Rightarrow> 'a \<Rightarrow> 'a \<Rightarrow> int" where
  "compareFn this a b =
     (if property this a < property this b then (if direction this = asc then - 1 else 1)
      else if property this a > property this b then (if direction this = asc then 1 else - 1)
      else 0)"

section \<open>Criteria and the combinators\<close>

text \<open>
  The objects that implement \<^verbatim>\<open>Criteria<T>\<close>: the closure made by \<^verbatim>\<open>Criteria.create\<close>, the
  three combinator classes with their (never reassigned) fields, the closure made by
  \<^verbatim>\<open>CriteriaBuilder.build\<close>, which holds the builder \<^verbatim>\<open>this\<close> by reference, and an
  implementation written by the caller, which may read, create and change arrays and may
  throw.
\<close>

type_synonym bref = nat

datatype 'a Criteria =
    Create "'a predicate"
  | AndCriteria "'a Criteria" "'a Criteria"
  | OrCriteria "'a Criteria" "'a Criteria"
  | NotCriteria "'a Criteria"
  | Built bref
  | Custom "addr \<Rightarrow> 'a arrays \<Rightarrow> error + addr \<times> 'a arrays"

record ('a, 'k) CriteriaBuilder =
  criteriaChain :: "'a Criteria list"
  orderBy :: "('a, 'k) OrderBy option"

record ('a, 'k) state =
  arrays :: "'a arrays"
  builders :: "bref \<Rightarrow> ('a, 'k) CriteriaBuilder"
  freshBuilder :: bref

definition allocArray :: "'a list \<Rightarrow> ('a, 'k) state \<Rightarrow> addr \<times> ('a, 'k) state" where
  "allocArray xs s = (case newArray xs (arrays s) of (r, h) \<Rightarrow> (r, s\<lparr>arrays := h\<rparr>))"

definition contents :: "('a, 'k) state \<Rightarrow> addr \<Rightarrow> 'a list" where
  "contents s r = cells (arrays s) r"

text \<open>
  \<^verbatim>\<open>OrderBy.apply\<close>: \<^verbatim>\<open>return items.sort(...)\<close>. \<^verbatim>\<open>sort\<close> rearranges the array it is called
  on and returns that same array.
\<close>

definition OrderBy_apply ::
  "('a, 'k::linorder) OrderBy \<Rightarrow> addr \<Rightarrow> ('a, 'k) state \<Rightarrow> addr \<times> ('a, 'k) state" where
  "OrderBy_apply this items s =
     (items,
      s\<lparr>arrays := (arrays s)
          \<lparr>cells := (cells (arrays s))
             (items := arraySort (compareFn this) (contents s items))\<rparr>\<rparr>)"

text \<open>
  \<^verbatim>\<open>Array.prototype.reduce\<close> over the chain, with the callback
  \<^verbatim>\<open>(res, criteria) => criteria.meetCriteria(res)\<close> and the initial value \<^verbatim>\<open>items\<close>.
\<close>

fun reduceChain ::
  "('c \<Rightarrow> addr \<Rightarrow> 's \<Rightarrow> (addr \<times> 's) outcome) \<Rightarrow> 'c list \<Rightarrow> addr \<Rightarrow> 's \<Rightarrow> (addr \<times> 's) outcome" where
  "reduceChain call [] res s = Return (res, s)"
| "reduceChain call (criteria # rest) res s =
     andThen (call criteria res s) (\<lambda>(res', s'). reduceChain call rest res' s')"

text \<open>
  \<^verbatim>\<open>meetCriteria\<close>, dispatched on the object it is called on. The first argument bounds the
  depth of nested \<^verbatim>\<open>meetCriteria\<close> calls: a builder can be given a composite built from
  itself, and evaluating that one never returns.
\<close>

primrec meetCriteria ::
  "nat \<Rightarrow> 'a Criteria \<Rightarrow> addr \<Rightarrow> ('a, 'k::linorder) state \<Rightarrow> (addr \<times> ('a, 'k) state) outcome" where
  "meetCriteria 0 c items s = OutOfFuel"
| "meetCriteria (Suc n) c items s =
     (case c of
        Create predicate \<Rightarrow>
          (case arrayFilter predicate items (arrays s) of
             Inl e \<Rightarrow> Throw e
           | Inr (result, h) \<Rightarrow> Return (result, s\<lparr>arrays := h\<rparr>))
      | AndCriteria criteria otherCriteria \<Rightarrow>
          andThen (meetCriteria n criteria items s) (\<lambda>(firstCriteriaItems, s1).
            meetCriteria n otherCriteria firstCriteriaItems s1)
      | OrCriteria criteria otherCriteria \<Rightarrow>
          andThen (meetCriteria n criteria items s) (\<lambda>(firstCriteriaItems, s1).
          andThen (meetCriteria n otherCriteria items s1) (\<lambda>(otherCriteriaItems, s2).
            Return (allocArray
              (newSet (contents s2 firstCriteriaItems @ contents s2 otherCriteriaItems)) s2)))
      | NotCriteria criteria \<Rightarrow>
          andThen (meetCriteria n criteria items s) (\<lambda>(criteriaItems, s1).
            case arrayFilter
                   (\<lambda>item k obj h. Inr (\<not> arrayIncludes (cells h criteriaItems) item, h))
                   items (arrays s1) of
              Inl e \<Rightarrow> Throw e
            | Inr (result, h) \<Rightarrow> Return (result, s1\<lparr>arrays := h\<rparr>))
      | Built this \<Rightarrow>
          andThen (reduceChain (meetCriteria n) (criteriaChain (builders s this)) items s)
            (\<lambda>(result, s1).
               case orderBy (builders s1 this) of
                 None \<Rightarrow> Return (result, s1)
               | Some ob \<Rightarrow> Return (OrderBy_apply ob result s1))
      | Custom f \<Rightarrow>
          (case f items (arrays s) of
             Inl e \<Rightarrow> Throw e
           | Inr (result, h) \<Rightarrow> Return (result, s\<lparr>arrays := h\<rparr>)))"

text \<open>\<^verbatim>\<open>Criteria.create(predicate)\<close>.\<close>

definition create :: "'a predicate \<Rightarrow> 'a Criteria" where
  "create predicate = Create predicate"

text \<open>
  Two kinds of predicate a caller may pass: one without side effects, whose answer (or
  throw) depends on the item, the index and the contents of the array; and, among these,
  one like \<^verbatim>\<open>(item) => q(item)\<close> that looks at the item only and does not throw.
\<close>

definition pureCallback :: "('a \<Rightarrow> nat \<Rightarrow> 'a list \<Rightarrow> error + bool) \<Rightarrow> 'a predicate" where
  "pureCallback p = (\<lambda>item k obj h.
     case p item k (cells h obj) of Inl e \<Rightarrow> Inl e | Inr selected \<Rightarrow> Inr (selected, h))"

definition itemOnly :: "('a \<Rightarrow> bool) \<Rightarrow> 'a predicate" where
  "itemOnly q = pureCallback (\<lambda>item k xs. Inr (q item))"

section \<open>CriteriaBuilder (builder.ts)\<close>

text \<open>\<^verbatim>\<open>new CriteriaBuilder()\<close>: an empty chain, \<^verbatim>\<open>orderBy\<close> undefined.\<close>

definition newCriteriaBuilder :: "('a, 'k) state \<Rightarrow> bref \<times> ('a, 'k) state" where
  "newCriteriaBuilder s =
     (freshBuilder s,
      s\<lparr>builders := (builders s)(freshBuilder s := \<lparr>criteriaChain = [], orderBy = None\<rparr>),
        freshBuilder := Suc (freshBuilder s)\<rparr>)"

definition addCriteria :: "bref \<Rightarrow> 'a Criteria \<Rightarrow> ('a, 'k) state \<Rightarrow> bref \<times> ('a, 'k) state" where
  "addCriteria this criteria s =
     (this,
      s\<lparr>builders := (builders s)
          (this := (builders s this)\<lparr>criteriaChain := criteriaChain (builders s this) @ [criteria]\<rparr>)\<rparr>)"

definition setOrderBy ::
  "bref \<Rightarrow> ('a \<Rightarrow> 'k) \<Rightarrow> OrderDirection option \<Rightarrow> ('a, 'k) state \<Rightarrow> bref \<times> ('a, 'k) state" where
  "setOrderBy this p d s =
     (this,
      s\<lparr>builders := (builders s)
          (this := (builders s this)
             \<lparr>orderBy := Some (newOrderBy p (Some (case d of None \<Rightarrow> asc | Some d' \<Rightarrow> d')))\<rparr>)\<rparr>)"

text \<open>
  \<^verbatim>\<open>build()\<close> reads nothing of the builder: the object it returns closes over \<^verbatim>\<open>this\<close>, and
  its \<^verbatim>\<open>meetCriteria\<close> (the \<open>Built\<close> case above) reads \<^verbatim>\<open>this.criteriaChain\<close> and
  \<^verbatim>\<open>this.orderBy\<close> when it is called.
\<close>

definition build :: "bref \<Rightarrow> ('a, 'k) state \<Rightarrow> 'a Criteria \<times> ('a, 'k) state" where
  "build this s = (Built this, s)"

text \<open>A call returns \<open>res\<close> when some nesting depth is enough for it to do so.\<close>

definition returns ::
  "'a Criteria \<Rightarrow> addr \<Rightarrow> ('a, 'k::linorder) state \<Rightarrow> addr \<times> ('a, 'k) state \<Rightarrow> bool" where
  "returns c items s res = (\<exists>n. meetCriteria n c items s = Return res)"

section \<open>What the specification says, in its own words\<close>

text \<open>
  The union of \<^verbatim>\<open>OrCriteria\<close> as the specification describes it: the first criteria's
  matches, then the second criteria's matches that are not already included, each in its
  own order, every item once.
\<close>

fun keepFirst :: "'a list \<Rightarrow> 'a list" where
  "keepFirst [] = []"
| "keepFirst (x # xs) = x # keepFirst (filter (\<lambda>y. y \<noteq> x) xs)"

definition specOr :: "'a list \<Rightarrow> 'a list \<Rightarrow> 'a list" where
  "specOr first other = keepFirst first @ keepFirst (filter (\<lambda>y. y \<notin> set first) other)"

text \<open>
  The filter of \<^verbatim>\<open>Criteria.create\<close> on sequences: the items at the positions (counted from
  \<open>k\<close>) where the predicate's call returns true, in their order; the first call that throws
  decides the outcome.
\<close>

fun filterAt :: "('a \<Rightarrow> nat \<Rightarrow> error + bool) \<Rightarrow> nat \<Rightarrow> 'a list \<Rightarrow> error + 'a list" where
  "filterAt p k [] = Inr []"
| "filterAt p k (x # xs) =
     (case p x k of
        Inl e \<Rightarrow> Inl e
      | Inr selected \<Rightarrow>
          (case filterAt p (Suc k) xs of
             Inl e \<Rightarrow> Inl e
           | Inr ys \<Rightarrow> Inr (if selected then x # ys else ys)))"

text \<open>
  Folding an input through a chain of criteria, left to right, each stage's output being
  the next stage's input.
\<close>

fun returnsChain ::
  "'a Criteria list \<Rightarrow> addr \<Rightarrow> ('a, 'k::linorder) state \<Rightarrow> addr \<times> ('a, 'k) state \<Rightarrow> bool" where
  "returnsChain [] items s res = (res = (items, s))"
| "returnsChain (c # cs) items s res =
     (\<exists>r1 s1. returns c items s (r1, s1) \<and> returnsChain cs r1 s1 res)"



text \<open>
  What a call does, told in sequences alone: the items of the returned array, the items
  the input array holds afterwards, whether the returned array is the input array itself,
  and whether an ordering directive has been applied to the input array.
\<close>

record 'a effect =
  outItems :: "'a list"
  inputAfter :: "'a list"
  isInput :: bool
  inputSorted :: bool






text \<open>
  A call from the store \<open>s\<close> on the array \<open>items\<close> that returned \<open>(r, s')\<close> did what the
  effect \<open>e\<close> says and nothing else: no other array that existed was changed, no builder was
  changed, and a returned array other than the input is a new one.
\<close>

definition accountsFor ::
  "('a, 'k) state \<Rightarrow> addr \<Rightarrow> 'a effect \<Rightarrow> addr \<times> ('a, 'k) state \<Rightarrow> bool" where
  "accountsFor s items e res = (case res of (r, s') \<Rightarrow>
     contents s' r = outItems e \<and> contents s' items = inputAfter e \<and>
     (isInput e \<longleftrightarrow> r = items) \<and>
     (\<not> isInput e \<longrightarrow> fresh (arrays s) \<le> r \<and> r < fresh (arrays s')) \<and>
     fresh (arrays s) \<le> fresh (arrays s') \<and>
     (\<forall>a < fresh (arrays s). a \<noteq> items \<longrightarrow> contents s' a = contents s a) \<and>
     builders s' = builders s \<and> freshBuilder s' = freshBuilder s)"

text \<open>The program's outcome is the one the specification's reading gives.\<close>

definition agrees ::
  "('a, 'k) state \<Rightarrow> addr \<Rightarrow> 'a effect outcome \<Rightarrow> (addr \<times> ('a, 'k) state) outcome \<Rightarrow> bool" where
  "agrees s items spec run =
     (case spec of
        Return e \<Rightarrow> (\<exists>res. run = Return res \<and> accountsFor s items e res)
      | Throw err \<Rightarrow> run = Throw err
      | OutOfFuel \<Rightarrow> run = OutOfFuel)"

section \<open>Concrete stores used in the examples\<close>

text \<open>What a call returned: the contents of the returned array, and of any other array.\<close>

fun returned :: "(addr \<times> ('a, 'k) state) outcome \<Rightarrow> 'a list option" where
  "returned (Return (r, s)) = Some (contents s r)"
| "returned (Throw e) = None"
| "returned OutOfFuel = None"


fun thrownBy :: "'x outcome \<Rightarrow> error option" where
  "thrownBy (Return x) = None"
| "thrownBy (Throw e) = Some e"
| "thrownBy OutOfFuel = None"

text \<open>
  The caller's function \<^verbatim>\<open>(x, threshold = 10) => x > threshold\<close>: the second parameter takes
  its default when the function is called with the item alone.
\<close>

definition greaterThan :: "nat \<Rightarrow> nat option \<Rightarrow> bool" where
  "greaterThan x threshold = ((case threshold of None \<Rightarrow> 10 | Some t \<Rightarrow> t) < x)"

text \<open>One array, at address 0, and no builder yet.\<close>

definition oneArray :: "nat list \<Rightarrow> (nat, nat) state" where
  "oneArray xs =
     \<lparr>arrays = \<lparr>cells = (\<lambda>_. [])(0 := xs), fresh = 1\<rparr>,
      builders = (\<lambda>_. \<lparr>criteriaChain = [], orderBy = None\<rparr>),
      freshBuilder = 0\<rparr>"

text \<open>
  The same with two builders whose chainOf are empty: builder 0 orderOf ascending, builder 1
  descending, both by the item itself.
\<close>

definition twoSorters :: "nat list \<Rightarrow> (nat, nat) state" where
  "twoSorters xs =
     snd (setOrderBy 1 (\<lambda>x. x) (Some desc)
       (snd (newCriteriaBuilder
         (snd (setOrderBy 0 (\<lambda>x. x) (Some asc)
           (snd (newCriteriaBuilder (oneArray xs))))))))"

section \<open>The built-ins, characterised\<close>

lemma filterLoop_local:
  assumes "\<And>x k. callbackfn x k obj h =
      (case p x k of Inl e \<Rightarrow> Inl e | Inr selected \<Rightarrow> Inr (selected, h))"
  shows "filterLoop callbackfn obj k m kept h =
    (case filterAt p k (take m (drop k (cells h obj))) of
       Inl e \<Rightarrow> Inl e
     | Inr ys \<Rightarrow> Inr (kept @ ys, h))"
proof (induction m arbitrary: k kept)
  case 0
  then show ?case by simp
next
  case (Suc m)
  show ?case
  proof (cases "k < length (cells h obj)")
    case True
    then have "take (Suc m) (drop k (cells h obj)) = cells h obj ! k # take m (drop (Suc k) (cells h obj))"
      by (simp add: Cons_nth_drop_Suc [symmetric])
    with True show ?thesis
      by (simp add: assms Suc.IH split: sum.splits)
  next
    case False
    then show ?thesis by (simp add: Suc.IH)
  qed
qed

lemma arrayFilter_local:
  assumes "\<And>x k. callbackfn x k obj h =
      (case p x k of Inl e \<Rightarrow> Inl e | Inr selected \<Rightarrow> Inr (selected, h))"
  shows "arrayFilter callbackfn obj h =
    (case filterAt p 0 (cells h obj) of Inl e \<Rightarrow> Inl e | Inr ys \<Rightarrow> Inr (newArray ys h))"
  by (simp add: arrayFilter_def filterLoop_local [of callbackfn obj h p, OF assms] split: sum.splits)

lemma filterAt_total: "filterAt (\<lambda>x k. Inr (q x)) k xs = Inr (filter q xs)"
  by (induction xs arbitrary: k) auto

lemma arrayFilter_pureCallback:
  "arrayFilter (pureCallback p) obj h =
    (case filterAt (\<lambda>x k. p x k (cells h obj)) 0 (cells h obj) of
       Inl e \<Rightarrow> Inl e
     | Inr ys \<Rightarrow> Inr (newArray ys h))"
  by (rule arrayFilter_local) (simp add: pureCallback_def)

lemma arrayFilter_itemOnly:
  "arrayFilter (itemOnly q) obj h = Inr (newArray (filter q (cells h obj)) h)"
  by (simp add: itemOnly_def arrayFilter_pureCallback filterAt_total)

lemma arrayIncludes_eq: "arrayIncludes xs x \<longleftrightarrow> x \<in> set xs"
  by (induction xs) auto

lemma arrayFilter_excluding:
  "arrayFilter (\<lambda>item k obj h. Inr (\<not> arrayIncludes (cells h A) item, h)) obj h =
     Inr (newArray (filter (\<lambda>x. x \<notin> set (cells h A)) (cells h obj)) h)"
proof -
  have "arrayFilter (\<lambda>item k obj h. Inr (\<not> arrayIncludes (cells h A) item, h)) obj h =
      (case filterAt (\<lambda>x k. Inr (x \<notin> set (cells h A))) 0 (cells h obj) of
         Inl e \<Rightarrow> Inl e
       | Inr ys \<Rightarrow> Inr (newArray ys h))"
    by (rule arrayFilter_local) (simp add: arrayIncludes_eq)
  then show ?thesis by (simp add: filterAt_total)
qed

lemma arrayFilter_excluding_set:
  "arrayFilter (\<lambda>item k obj h. Inr (item \<notin> set (cells h A), h)) obj h =
     Inr (newArray (filter (\<lambda>x. x \<notin> set (cells h A)) (cells h obj)) h)"
  using arrayFilter_excluding [of A obj h] by (simp add: arrayIncludes_eq)

section \<open>One step of \<open>meetCriteria\<close> for each kind of object\<close>

lemma meetCriteria_Create:
  "meetCriteria (Suc n) (Create p) items s =
     (case arrayFilter p items (arrays s) of
        Inl e \<Rightarrow> Throw e
      | Inr (result, h) \<Rightarrow> Return (result, s\<lparr>arrays := h\<rparr>))"
  by simp

lemma meetCriteria_And:
  "meetCriteria (Suc n) (AndCriteria a b) items s =
     andThen (meetCriteria n a items s) (\<lambda>(r1, s1). meetCriteria n b r1 s1)"
  by simp

lemma meetCriteria_Or:
  "meetCriteria (Suc n) (OrCriteria a b) items s =
     andThen (meetCriteria n a items s) (\<lambda>(ra, s1).
     andThen (meetCriteria n b items s1) (\<lambda>(rb, s2).
       Return (allocArray (newSet (contents s2 ra @ contents s2 rb)) s2)))"
  by simp

lemma meetCriteria_Not:
  "meetCriteria (Suc n) (NotCriteria a) items s =
     andThen (meetCriteria n a items s) (\<lambda>(rc, s1).
       Return (allocArray
         (filter (\<lambda>x. x \<notin> set (contents s1 rc)) (contents s1 items)) s1))"
  by (simp add: arrayFilter_excluding allocArray_def newArray_def contents_def)

lemma meetCriteria_create_itemOnly:
  "meetCriteria (Suc n) (create (itemOnly q)) items s =
     Return (allocArray (filter q (contents s items)) s)"
  by (simp add: create_def arrayFilter_itemOnly allocArray_def newArray_def contents_def)

lemma meetCriteria_Built:
  "meetCriteria (Suc n) (Built b) items s =
     andThen (reduceChain (meetCriteria n) (criteriaChain (builders s b)) items s)
       (\<lambda>(result, s1).
          case orderBy (builders s1 b) of
            None \<Rightarrow> Return (result, s1)
          | Some ob \<Rightarrow> Return (OrderBy_apply ob result s1))"
  by simp

lemma meetCriteria_Custom:
  "meetCriteria (Suc n) (Custom f) items s =
     (case f items (arrays s) of
        Inl e \<Rightarrow> Throw e
      | Inr (result, h) \<Rightarrow> Return (result, s\<lparr>arrays := h\<rparr>))"
  by simp

section \<open>A deeper nesting bound changes no result\<close>

lemma andThen_mono:
  assumes "andThen m f \<noteq> OutOfFuel"
    and "m \<noteq> OutOfFuel \<Longrightarrow> m' = m"
    and "\<And>x. m = Return x \<Longrightarrow> f x \<noteq> OutOfFuel \<Longrightarrow> f' x = f x"
  shows "andThen m' f' = andThen m f"
  using assms by (cases m) auto

lemma reduceChain_mono:
  assumes "\<And>c r s. call c r s \<noteq> OutOfFuel \<Longrightarrow> call' c r s = call c r s"
    and "reduceChain call cs r s \<noteq> OutOfFuel"
  shows "reduceChain call' cs r s = reduceChain call cs r s"
  using assms(2)
proof (induction cs arbitrary: r s)
  case Nil
  then show ?case by simp
next
  case (Cons c cs)
  from Cons.prems have ne: "call c r s \<noteq> OutOfFuel"
    by (cases "call c r s") auto
  then have eq: "call' c r s = call c r s" by (rule assms(1))
  show ?case
  proof (cases "call c r s")
    case (Return x)
    obtain r1 s1 where x: "x = (r1, s1)" by (cases x)
    from Cons.prems Return x have "reduceChain call cs r1 s1 \<noteq> OutOfFuel" by simp
    then have "reduceChain call' cs r1 s1 = reduceChain call cs r1 s1" by (rule Cons.IH)
    with eq Return x show ?thesis by simp
  next
    case (Throw e)
    with eq show ?thesis by simp
  next
    case OutOfFuel
    with ne show ?thesis by simp
  qed
qed

lemma meetCriteria_Suc:
  fixes s :: "('a, 'k::linorder) state"
  shows "meetCriteria n c items s \<noteq> OutOfFuel \<Longrightarrow>
    meetCriteria (Suc n) c items s = meetCriteria n c items s"
proof (induction n arbitrary: c items s)
  case 0
  then show ?case by simp
next
  case (Suc n)
  note IH = Suc.IH
  show ?case
  proof (cases c)
    case (Create p)
    then show ?thesis by simp
  next
    case (AndCriteria a b)
    with Suc.prems show ?thesis
      unfolding AndCriteria meetCriteria_And
      by (elim andThen_mono) (auto simp del: meetCriteria.simps simp: IH)
  next
    case (OrCriteria a b)
    with Suc.prems show ?thesis
      unfolding OrCriteria meetCriteria_Or
      by (elim andThen_mono) (auto simp del: meetCriteria.simps simp: IH elim!: andThen_mono)
  next
    case (NotCriteria a)
    with Suc.prems show ?thesis
      unfolding NotCriteria meetCriteria_Not
      by (elim andThen_mono) (auto simp del: meetCriteria.simps simp: IH)
  next
    case (Built b)
    have "reduceChain (meetCriteria (Suc n)) cs r t = reduceChain (meetCriteria n) cs r t"
      if "reduceChain (meetCriteria n) cs r t \<noteq> OutOfFuel"
      for cs r and t :: "('a, 'k) state"
      by (rule reduceChain_mono [OF IH that])
    with Suc.prems show ?thesis
      unfolding Built meetCriteria_Built
      by (elim andThen_mono) (auto simp del: meetCriteria.simps)
  next
    case (Custom f)
    then show ?thesis by simp
  qed
qed

lemma meetCriteria_mono:
  "n \<le> m \<Longrightarrow> meetCriteria n c items s = Return res \<Longrightarrow> meetCriteria m c items s = Return res"
proof (induction m)
  case 0
  then show ?case by simp
next
  case (Suc m)
  show ?case
  proof (cases "n = Suc m")
    case True
    with Suc.prems show ?thesis by simp
  next
    case False
    with Suc.prems have "meetCriteria m c items s = Return res" using Suc.IH by simp
    then show ?thesis using meetCriteria_Suc [of m c items s] by (simp del: meetCriteria.simps)
  qed
qed

text \<open>
  The bound is needed: the composite of a builder whose chain starts with that very
  composite calls itself on the same input in the same store, and returns at no depth.
\<close>

lemma self_composite_OutOfFuel:
  assumes "criteriaChain (builders s b) = Built b # cs"
  shows "meetCriteria n (Built b) items s = OutOfFuel"
proof (induction n)
  case 0
  then show ?case by simp
next
  case (Suc n)
  then show ?case
    unfolding meetCriteria_Built assms by simp
qed

lemma returnsI: "meetCriteria n c items s = Return res \<Longrightarrow> returns c items s res"
  by (auto simp: returns_def)

lemma returns_unique:
  assumes "returns c items s res" and "returns c items s res'"
  shows "res' = res"
proof -
  from assms obtain n m where n: "meetCriteria n c items s = Return res"
    and m: "meetCriteria m c items s = Return res'"
    by (auto simp: returns_def)
  have "meetCriteria (max n m) c items s = Return res"
    using n by (rule meetCriteria_mono [rotated]) simp
  moreover have "meetCriteria (max n m) c items s = Return res'"
    using m by (rule meetCriteria_mono [rotated]) simp
  ultimately show ?thesis by simp
qed

section \<open>Calls that return\<close>

lemma andThen_Return_iff:
  "andThen m f = Return y \<longleftrightarrow> (\<exists>x. m = Return x \<and> f x = Return y)"
  by (cases m) auto

lemmas store_simps = allocArray_def newArray_def contents_def oneArray_def create_def
  arrayFilter_itemOnly arrayFilter_excluding_set arrayIncludes_eq

lemmas builder_simps = twoSorters_def newCriteriaBuilder_def setOrderBy_def addCriteria_def
  build_def newOrderBy_def OrderBy_apply_def arraySort_def compareFn_def

section \<open>AndCriteria\<close>

text \<open>
  C4. \<^verbatim>\<open>And(a, b).meetCriteria(items)\<close> is \<^verbatim>\<open>b.meetCriteria(a.meetCriteria(items))\<close>: the call
  returns exactly when \<open>a\<close>, called on \<open>items\<close>, returns some array \<open>first\<close> and \<open>b\<close>, called on
  \<open>first\<close> in the store \<open>a\<close> left behind, returns; and it returns what \<open>b\<close> returned. The second
  criteria never sees the original input.
\<close>

theorem AndCriteria_sequential:
  "returns (AndCriteria a b) items s res \<longleftrightarrow>
     (\<exists>first s1. returns a items s (first, s1) \<and> returns b first s1 res)"
proof
  assume "returns (AndCriteria a b) items s res"
  then obtain n where n: "meetCriteria n (AndCriteria a b) items s = Return res"
    by (auto simp: returns_def)
  then obtain k where k: "n = Suc k" by (cases n) auto
  from n show "\<exists>first s1. returns a items s (first, s1) \<and> returns b first s1 res"
    unfolding k meetCriteria_And andThen_Return_iff
    by (auto intro: returnsI)
next
  assume "\<exists>first s1. returns a items s (first, s1) \<and> returns b first s1 res"
  then obtain first s1 n m where a: "meetCriteria n a items s = Return (first, s1)"
    and b: "meetCriteria m b first s1 = Return res"
    by (auto simp: returns_def)
  have "meetCriteria (max n m) a items s = Return (first, s1)"
    using a by (rule meetCriteria_mono [rotated]) simp
  moreover have "meetCriteria (max n m) b first s1 = Return res"
    using b by (rule meetCriteria_mono [rotated]) simp
  ultimately have "meetCriteria (Suc (max n m)) (AndCriteria a b) items s = Return res"
    unfolding meetCriteria_And by simp
  then show "returns (AndCriteria a b) items s res" by (rule returnsI)
qed

theorem AndCriteria_sequential_witness:
  "\<exists>res. returns (AndCriteria (create (itemOnly (\<lambda>x. 1 < x))) (create (itemOnly (\<lambda>x. x < 3)))) 0 (oneArray [2, 1, 3]) res
     \<and> returned (Return res) = Some [2]"
proof -
  let ?a = "create (itemOnly (\<lambda>x::nat. 1 < x))" and ?b = "create (itemOnly (\<lambda>x::nat. x < 3))"
  let ?s1 = "snd (allocArray [2, 3] (oneArray [2, 1, 3]))"
  have a: "returns ?a 0 (oneArray [2, 1, 3]) (1, ?s1)"
    by (rule returnsI [of "Suc 0"]) (simp add: store_simps)
  have b: "returns ?b 1 ?s1 (allocArray [2] ?s1)"
    by (rule returnsI [of "Suc 0"]) (simp add: store_simps)
  from a b have "returns (AndCriteria ?a ?b) 0 (oneArray [2, 1, 3]) (allocArray [2] ?s1)"
    using AndCriteria_sequential [of ?a ?b 0 "oneArray [2, 1, 3]" "allocArray [2] ?s1"] by blast
  moreover have "returned (Return (allocArray [2] ?s1)) = Some [2]"
    by (simp add: store_simps)
  ultimately show ?thesis by blast
qed

section \<open>OrCriteria\<close>

lemma set_keepFirst: "set (keepFirst xs) = set xs"
  by (induction xs rule: keepFirst.induct) auto

lemma foldl_setAdd:
  "foldl setAdd acc xs = acc @ keepFirst (filter (\<lambda>y. y \<notin> set acc) xs)"
proof (induction xs arbitrary: acc)
  case Nil
  then show ?case by simp
next
  case (Cons x xs)
  show ?case
  proof (cases "x \<in> set acc")
    case True
    then have "setAdd acc x = acc" by (simp add: setAdd_def arrayIncludes_eq)
    then have "foldl setAdd acc (x # xs) = foldl setAdd acc xs" by simp
    with True show ?thesis by (simp only: Cons.IH) simp
  next
    case False
    then have "setAdd acc x = acc @ [x]" by (simp add: setAdd_def arrayIncludes_eq)
    then have "foldl setAdd acc (x # xs) = foldl setAdd (acc @ [x]) xs" by simp
    moreover have "filter (\<lambda>y. y \<noteq> x) (filter (\<lambda>y. y \<notin> set acc) xs) =
        filter (\<lambda>y. y \<notin> set (acc @ [x])) xs"
      by (auto intro: filter_cong)
    ultimately show ?thesis using False by (simp only: Cons.IH) simp
  qed
qed

lemma newSet_append: "newSet (first @ other) = specOr first other"
  by (simp add: newSet_def specOr_def foldl_setAdd set_keepFirst)

text \<open>
  Two builders that only sort, as sub-criteria. Each of them hands the caller's array to
  \<^verbatim>\<open>sort\<close> and returns it, so \<open>firstCriteriaItems\<close> and \<open>otherCriteriaItems\<close> are both the
  input array, and by the time they are spread it is in the second builder's order. On
  the input \<open>[2, 1, 3]\<close> the first criteria alone returns \<open>[1, 2, 3]\<close> and the second alone
  \<open>[3, 2, 1]\<close>; the first criteria's matches followed by the second's new ones would be
  \<open>[1, 2, 3]\<close>, and \<^verbatim>\<open>OrCriteria\<close> returns \<open>[3, 2, 1]\<close>.
\<close>

theorem OrCriteria_order_counterexample:
  "contents (twoSorters [2, 1, 3]) 0 = [2, 1, 3]
   \<and> returned (meetCriteria 2 (Built 0) 0 (twoSorters [2, 1, 3])) = Some [1, 2, 3]
   \<and> returned (meetCriteria 2 (Built 1) 0 (twoSorters [2, 1, 3])) = Some [3, 2, 1]
   \<and> returned (meetCriteria 3 (OrCriteria (Built 0) (Built 1)) 0 (twoSorters [2, 1, 3]))
       = Some [3, 2, 1]
   \<and> specOr [1, 2, 3] [3, 2, 1] = [1, 2, 3 :: nat]"
  by code_simp

text \<open>
  C2, amended. \<^verbatim>\<open>Or(a, b).meetCriteria(items)\<close> calls \<open>a\<close> and then \<open>b\<close> on the same array \<open>items\<close>
  and returns a new array. Its contents are those of the array \<open>a\<close> returned followed by
  those of the array \<open>b\<close> returned that are not already included, both arrays read after
  \<open>b\<close> has returned and each in the order it then has, every item once (its first
  occurrence, by identity). For \<open>a\<close> returning \<open>[X, Z]\<close> and \<open>b\<close> returning \<open>[Y, X]\<close> that is
  \<open>[X, Z, Y]\<close>.
\<close>

theorem OrCriteria_union:
  "(returns (OrCriteria a b) items s res \<longleftrightarrow>
      (\<exists>ra s1 rb s2. returns a items s (ra, s1) \<and> returns b items s1 (rb, s2) \<and>
         res = allocArray (specOr (contents s2 ra) (contents s2 rb)) s2))
   \<and> (returns a items s (ra', s1') \<and> returns b items s1' (rb', s2') \<and>
       contents s2' ra' = [X, Z] \<and> contents s2' rb' = [Y, X] \<and>
       X \<noteq> Y \<and> X \<noteq> Z \<and> Y \<noteq> Z \<longrightarrow>
       (\<exists>r s3. returns (OrCriteria a b) items s (r, s3) \<and> contents s3 r = [X, Z, Y]))"
proof -
  have union: "returns (OrCriteria a b) items s res \<longleftrightarrow>
      (\<exists>ra s1 rb s2. returns a items s (ra, s1) \<and> returns b items s1 (rb, s2) \<and>
         res = allocArray (specOr (contents s2 ra) (contents s2 rb)) s2)" for res
  proof
    assume "returns (OrCriteria a b) items s res"
    then obtain n where n: "meetCriteria n (OrCriteria a b) items s = Return res"
      by (auto simp: returns_def)
    then obtain k where k: "n = Suc k" by (cases n) auto
    from n obtain ra s1 where a: "meetCriteria k a items s = Return (ra, s1)"
      and rest: "andThen (meetCriteria k b items s1) (\<lambda>(rb, s2).
         Return (allocArray (newSet (contents s2 ra @ contents s2 rb)) s2)) = Return res"
      unfolding k meetCriteria_Or andThen_Return_iff [of "meetCriteria k a items s"] by auto
    from rest obtain rb s2 where b: "meetCriteria k b items s1 = Return (rb, s2)"
      and res: "res = allocArray (specOr (contents s2 ra) (contents s2 rb)) s2"
      unfolding andThen_Return_iff newSet_append by auto
    from a b res show "\<exists>ra s1 rb s2. returns a items s (ra, s1) \<and> returns b items s1 (rb, s2) \<and>
          res = allocArray (specOr (contents s2 ra) (contents s2 rb)) s2"
      by (blast intro: returnsI)
  next
    assume "\<exists>ra s1 rb s2. returns a items s (ra, s1) \<and> returns b items s1 (rb, s2) \<and>
          res = allocArray (specOr (contents s2 ra) (contents s2 rb)) s2"
    then obtain ra s1 rb s2 n m where a: "meetCriteria n a items s = Return (ra, s1)"
      and b: "meetCriteria m b items s1 = Return (rb, s2)"
      and res: "res = allocArray (specOr (contents s2 ra) (contents s2 rb)) s2"
      by (auto simp: returns_def)
    have "meetCriteria (max n m) a items s = Return (ra, s1)"
      using a by (rule meetCriteria_mono [rotated]) simp
    moreover have "meetCriteria (max n m) b items s1 = Return (rb, s2)"
      using b by (rule meetCriteria_mono [rotated]) simp
    ultimately have "meetCriteria (Suc (max n m)) (OrCriteria a b) items s = Return res"
      unfolding meetCriteria_Or res newSet_append by simp
    then show "returns (OrCriteria a b) items s res" by (rule returnsI)
  qed
  have example: "\<exists>r s3. returns (OrCriteria a b) items s (r, s3) \<and> contents s3 r = [X, Z, Y]"
    if h: "returns a items s (ra', s1') \<and> returns b items s1' (rb', s2') \<and>
       contents s2' ra' = [X, Z] \<and> contents s2' rb' = [Y, X] \<and>
       X \<noteq> Y \<and> X \<noteq> Z \<and> Y \<noteq> Z"
  proof -
    let ?res = "allocArray (specOr (contents s2' ra') (contents s2' rb')) s2'"
    from h have "returns (OrCriteria a b) items s ?res" using union by blast
    moreover from h have "contents (snd ?res) (fst ?res) = [X, Z, Y]"
      by (auto simp: allocArray_def newArray_def contents_def specOr_def)
    ultimately show ?thesis by (metis prod.collapse)
  qed
  from union example show ?thesis by blast
qed

theorem OrCriteria_union_witness:
  "\<exists>r s3. returns (OrCriteria (create (itemOnly (\<lambda>x. x \<noteq> 2))) (Built 1)) 0
       (snd (addCriteria 1 (create (itemOnly (\<lambda>x. x < 3))) (twoSorters [1, 2, 3]))) (r, s3)
     \<and> contents s3 r = [1, 3, 2]"
proof -
  let ?a = "create (itemOnly (\<lambda>x::nat. x \<noteq> 2))"
  let ?s = "snd (addCriteria 1 (create (itemOnly (\<lambda>x. x < 3))) (twoSorters [1, 2, 3]))"
  have "\<exists>ra s1. meetCriteria (Suc 0) ?a 0 ?s = Return (ra, s1) \<and>
      (\<exists>rb s2. meetCriteria (Suc (Suc 0)) (Built 1) 0 s1 = Return (rb, s2) \<and>
         contents s2 ra = [1, 3] \<and> contents s2 rb = [2, 1])"
    by (simp add: store_simps builder_simps)
  then obtain ra s1 rb s2 where "returns ?a 0 ?s (ra, s1)" and "returns (Built 1) 0 s1 (rb, s2)"
    and "contents s2 ra = [1, 3]" and "contents s2 rb = [2, 1]"
    by (blast intro: returnsI)
  moreover have "(1::nat) \<noteq> 2 \<and> (1::nat) \<noteq> 3 \<and> (2::nat) \<noteq> 3" by simp
  ultimately show ?thesis
    using OrCriteria_union [THEN conjunct2, THEN mp,
        of ?a 0 ?s ra s1 "Built 1" rb s2 1 3 2]
    by blast
qed

section \<open>NotCriteria\<close>

text \<open>
  A sub-criteria that reorders the input before it filters: builder 1 only sorts
  (descending), and \<^verbatim>\<open>And(builder 1's composite, create(x > 2))\<close> on \<open>[1, 2, 3]\<close> returns
  \<open>[3]\<close>. The items of the input that are not in that result are, in the input's
  original order, \<open>[1, 2]\<close>; \<^verbatim>\<open>NotCriteria\<close> returns \<open>[2, 1]\<close>.
\<close>

theorem NotCriteria_order_counterexample:
  "contents (twoSorters [1, 2, 3]) 0 = [1, 2, 3]
   \<and> returned (meetCriteria 3 (AndCriteria (Built 1) (create (itemOnly (\<lambda>x. 2 < x)))) 0
         (twoSorters [1, 2, 3])) = Some [3]
   \<and> returned (meetCriteria 4 (NotCriteria (AndCriteria (Built 1) (create (itemOnly (\<lambda>x. 2 < x))))) 0
         (twoSorters [1, 2, 3])) = Some [2, 1]
   \<and> filter (\<lambda>x. x \<notin> set [3]) [1, 2, 3 :: nat] = [1, 2]"
  by code_simp

text \<open>
  C5, amended. \<^verbatim>\<open>Not(c).meetCriteria(items)\<close> returns a new array holding the items of the
  input array, as that array stands once \<^verbatim>\<open>c.meetCriteria(items)\<close> has returned, that are
  not present (by identity) in the array \<open>c\<close> returned, in the order the input array then
  has.
\<close>

theorem NotCriteria_complement:
  "returns (NotCriteria c) items s res \<longleftrightarrow>
     (\<exists>rc s1. returns c items s (rc, s1) \<and>
        res = allocArray (filter (\<lambda>x. x \<notin> set (contents s1 rc)) (contents s1 items)) s1)"
proof
  assume "returns (NotCriteria c) items s res"
  then obtain n where n: "meetCriteria n (NotCriteria c) items s = Return res"
    by (auto simp: returns_def)
  then obtain k where k: "n = Suc k" by (cases n) auto
  from n show "\<exists>rc s1. returns c items s (rc, s1) \<and>
        res = allocArray (filter (\<lambda>x. x \<notin> set (contents s1 rc)) (contents s1 items)) s1"
    unfolding k meetCriteria_Not andThen_Return_iff
    by (auto intro: returnsI)
next
  assume "\<exists>rc s1. returns c items s (rc, s1) \<and>
        res = allocArray (filter (\<lambda>x. x \<notin> set (contents s1 rc)) (contents s1 items)) s1"
  then obtain rc s1 n where c: "meetCriteria n c items s = Return (rc, s1)"
    and res: "res = allocArray (filter (\<lambda>x. x \<notin> set (contents s1 rc)) (contents s1 items)) s1"
    by (auto simp: returns_def)
  then have "meetCriteria (Suc n) (NotCriteria c) items s = Return res"
    unfolding meetCriteria_Not by simp
  then show "returns (NotCriteria c) items s res" by (rule returnsI)
qed

theorem NotCriteria_complement_witness:
  "\<exists>res rc s1.
     returns (NotCriteria (create (itemOnly (\<lambda>x. x = 1)))) 0 (oneArray [2, 1, 3]) res
     \<and> returns (create (itemOnly (\<lambda>x. x = 1))) 0 (oneArray [2, 1, 3]) (rc, s1)
     \<and> res = allocArray (filter (\<lambda>x. x \<notin> set (contents s1 rc)) (contents s1 0)) s1
     \<and> returned (Return res) = Some [2, 3]"
proof -
  let ?c = "create (itemOnly (\<lambda>x::nat. x = 1))"
  have "\<exists>res. meetCriteria (Suc (Suc 0)) (NotCriteria ?c) 0 (oneArray [2, 1, 3]) = Return res
      \<and> returned (Return res) = Some [2, 3]"
    by (simp add: store_simps)
  then obtain res where res: "returns (NotCriteria ?c) 0 (oneArray [2, 1, 3]) res"
    and out: "returned (Return res) = Some [2, 3]"
    by (blast intro: returnsI)
  from res out show ?thesis
    using NotCriteria_complement [of ?c 0 "oneArray [2, 1, 3]" res] by blast
qed

section \<open>OrderBy\<close>

lemma mset_sortInsert: "mset (sortInsert cmp x ys) = add_mset x (mset ys)"
  by (induction ys) auto

lemma mset_arraySort: "mset (arraySort cmp xs) = mset xs"
  by (induction xs) (auto simp: arraySort_def mset_sortInsert)

lemma set_sortInsert: "set (sortInsert cmp x ys) = insert x (set ys)"
  by (induction ys) auto

lemma sorted_wrt_sortInsert:
  assumes trans: "\<And>a b c. R a b \<Longrightarrow> R b c \<Longrightarrow> R a c"
    and le: "\<And>a b. cmp a b \<le> 0 \<Longrightarrow> R a b"
    and gt: "\<And>a b. \<not> cmp a b \<le> 0 \<Longrightarrow> R b a"
    and sorted: "sorted_wrt R ys"
  shows "sorted_wrt R (sortInsert cmp x ys)"
  using sorted
proof (induction ys)
  case Nil
  then show ?case by simp
next
  case (Cons y ys)
  show ?case
  proof (cases "cmp x y \<le> 0")
    case True
    then have "R x y" by (rule le)
    with Cons.prems have "\<forall>z\<in>set (y # ys). R x z" by (auto intro: trans)
    with True Cons.prems show ?thesis by simp
  next
    case False
    then have "R y x" by (rule gt)
    with Cons.prems have "\<forall>z\<in>set (sortInsert cmp x ys). R y z"
      by (auto simp: set_sortInsert)
    moreover from Cons have "sorted_wrt R (sortInsert cmp x ys)" by simp
    ultimately show ?thesis using False by simp
  qed
qed

lemma sorted_wrt_arraySort:
  assumes "\<And>a b c. R a b \<Longrightarrow> R b c \<Longrightarrow> R a c"
    and "\<And>a b. cmp a b \<le> 0 \<Longrightarrow> R a b"
    and "\<And>a b. \<not> cmp a b \<le> 0 \<Longrightarrow> R b a"
  shows "sorted_wrt R (arraySort cmp xs)"
proof (induction xs)
  case Nil
  then show ?case by (simp add: arraySort_def)
next
  case (Cons x xs)
  have "sorted_wrt R (sortInsert cmp x (arraySort cmp xs))"
    using assms Cons.IH by (rule sorted_wrt_sortInsert)
  then show ?case by (simp add: arraySort_def)
qed

lemma filter_sortInsert:
  assumes "\<And>y. key y = key x \<Longrightarrow> cmp x y \<le> 0"
  shows "filter (\<lambda>y. key y = k) (sortInsert cmp x ys) =
    (if key x = k then x # filter (\<lambda>y. key y = k) ys else filter (\<lambda>y. key y = k) ys)"
  using assms by (induction ys) auto

lemma filter_arraySort:
  assumes "\<And>x y. key y = key x \<Longrightarrow> cmp x y \<le> 0"
  shows "filter (\<lambda>y. key y = k) (arraySort cmp xs) = filter (\<lambda>y. key y = k) xs"
proof (induction xs)
  case Nil
  then show ?case by (simp add: arraySort_def)
next
  case (Cons x xs)
  have "filter (\<lambda>y. key y = k) (sortInsert cmp x (arraySort cmp xs)) =
    (if key x = k then x # filter (\<lambda>y. key y = k) (arraySort cmp xs)
     else filter (\<lambda>y. key y = k) (arraySort cmp xs))"
    using assms by (rule filter_sortInsert)
  with Cons.IH show ?case by (simp add: arraySort_def)
qed

lemma compareFn_asc: "direction ob = asc \<Longrightarrow> compareFn ob a b \<le> 0 \<longleftrightarrow> property ob a \<le> property ob b"
  by (auto simp: compareFn_def)

lemma compareFn_desc: "direction ob = desc \<Longrightarrow> compareFn ob a b \<le> 0 \<longleftrightarrow> property ob b \<le> property ob a"
  by (auto simp: compareFn_def)

lemma compareFn_tie: "property ob b = property ob a \<Longrightarrow> compareFn ob a b \<le> 0"
  by (simp add: compareFn_def)

lemma compareFn_inverted:
  "compareFn (ob\<lparr>direction := desc\<rparr>) a b = - compareFn (ob\<lparr>direction := asc\<rparr>) a b"
  by (simp add: compareFn_def)

lemma arraySort_sorted_asc:
  assumes "direction ob = asc"
  shows "sorted (map (property ob) (arraySort (compareFn ob) xs))"
proof -
  have "sorted_wrt (\<lambda>a b. property ob a \<le> property ob b) (arraySort (compareFn ob) xs)"
    by (rule sorted_wrt_arraySort) (use assms in \<open>auto simp: compareFn_asc\<close>)
  then show ?thesis by (simp add: sorted_map)
qed

lemma arraySort_sorted_desc:
  assumes "direction ob = desc"
  shows "sorted (rev (map (property ob) (arraySort (compareFn ob) xs)))"
proof -
  have "sorted_wrt (\<lambda>a b. property ob b \<le> property ob a) (arraySort (compareFn ob) xs)"
    by (rule sorted_wrt_arraySort) (use assms in \<open>auto simp: compareFn_desc\<close>)
  then have "sorted_wrt (\<lambda>a b. b \<le> a) (map (property ob) (arraySort (compareFn ob) xs))"
    by (simp add: sorted_wrt_map)
  then show ?thesis by (simp add: sorted_wrt_rev)
qed

lemma arraySort_stable: "filter (\<lambda>y. property ob y = k) (arraySort (compareFn ob) xs) = filter (\<lambda>y. property ob y = k) xs"
  by (rule filter_arraySort) (rule compareFn_tie)

lemma OrderBy_apply_contents:
  "OrderBy_apply ob items s = (r, s') \<Longrightarrow>
     r = items \<and> contents s' items = arraySort (compareFn ob) (contents s items)"
  by (auto simp: OrderBy_apply_def contents_def)

text \<open>
  C6. \<^verbatim>\<open>OrderBy.apply\<close> rearranges the items it is given (nothing added, nothing lost) so that
  the selected attribute is non-decreasing for \<open>asc\<close> and non-increasing for \<open>desc\<close>; in both
  directions the items that carry the same attribute value \<open>k\<close> stay in their input order;
  and the comparator for \<open>desc\<close> is the comparator for \<open>asc\<close> with every outcome negated: the
  sorted sequence is never reversed.
\<close>

theorem OrderBy_apply_stable:
  assumes "OrderBy_apply ob items s = (r, s')"
  shows "mset (contents s' r) = mset (contents s items)
    \<and> (direction ob = asc \<longrightarrow> sorted (map (property ob) (contents s' r)))
    \<and> (direction ob = desc \<longrightarrow> sorted (rev (map (property ob) (contents s' r))))
    \<and> filter (\<lambda>x. property ob x = k) (contents s' r) =
        filter (\<lambda>x. property ob x = k) (contents s items)
    \<and> compareFn (ob\<lparr>direction := desc\<rparr>) a b = - compareFn (ob\<lparr>direction := asc\<rparr>) a b"
proof -
  from assms have r: "r = items"
    and c: "contents s' items = arraySort (compareFn ob) (contents s items)"
    by (auto dest: OrderBy_apply_contents)
  show ?thesis
    unfolding r c
    by (simp add: mset_arraySort arraySort_sorted_asc arraySort_sorted_desc arraySort_stable
        compareFn_inverted)
qed

theorem OrderBy_apply_stable_witness:
  "contents (snd (OrderBy_apply \<lparr>property = (\<lambda>x. x div 10), direction = desc\<rparr> 0
       (oneArray [35, 12, 31, 18]))) 0 = [35, 31, 12, 18]
   \<and> sorted (rev (map (\<lambda>x. x div 10) (contents (snd (OrderBy_apply
       \<lparr>property = (\<lambda>x. x div 10), direction = desc\<rparr> 0 (oneArray [35, 12, 31, 18]))) 0)))
   \<and> filter (\<lambda>x. x div 10 = 3) (contents (snd (OrderBy_apply
       \<lparr>property = (\<lambda>x. x div 10), direction = desc\<rparr> 0 (oneArray [35, 12, 31, 18]))) 0)
       = filter (\<lambda>x. x div 10 = 3) (contents (oneArray [35, 12, 31, 18]) 0)
   \<and> contents (snd (OrderBy_apply \<lparr>property = (\<lambda>x. x div 10), direction = asc\<rparr> 0
       (oneArray [35, 12, 31, 18]))) 0 = [12, 18, 35, 31]
   \<and> sorted (map (\<lambda>x. x div 10) (contents (snd (OrderBy_apply
       \<lparr>property = (\<lambda>x. x div 10), direction = asc\<rparr> 0 (oneArray [35, 12, 31, 18]))) 0))"
proof -
  let ?d = "\<lparr>property = (\<lambda>x::nat. x div 10), direction = desc\<rparr> :: (nat, nat) OrderBy"
  let ?a = "\<lparr>property = (\<lambda>x::nat. x div 10), direction = asc\<rparr> :: (nat, nat) OrderBy"
  let ?s = "oneArray [35, 12, 31, 18]"
  have d: "OrderBy_apply ?d 0 ?s = (0, snd (OrderBy_apply ?d 0 ?s))"
    by (simp add: OrderBy_apply_def)
  have a: "OrderBy_apply ?a 0 ?s = (0, snd (OrderBy_apply ?a 0 ?s))"
    by (simp add: OrderBy_apply_def)
  have "contents (snd (OrderBy_apply ?d 0 ?s)) 0 = [35, 31, 12, 18]"
    and "contents (snd (OrderBy_apply ?a 0 ?s)) 0 = [12, 18, 35, 31]"
    by (simp_all add: store_simps builder_simps)
  then show ?thesis
    using OrderBy_apply_stable [OF d, of 3] OrderBy_apply_stable [OF a, of 3] by simp
qed

text \<open>
  C10. \<^verbatim>\<open>OrderBy.apply\<close> returns the very array it was given and allocates nothing: after the
  call the array at that address holds the same items in sorted arrangement, every other
  array and every builder is as before, and no new address has been handed out.
\<close>

theorem OrderBy_apply_in_place:
  assumes "OrderBy_apply ob items s = (r, s')"
  shows "r = items
    \<and> fresh (arrays s') = fresh (arrays s)
    \<and> builders s' = builders s \<and> freshBuilder s' = freshBuilder s
    \<and> (\<forall>a. a \<noteq> items \<longrightarrow> contents s' a = contents s a)
    \<and> contents s' items = arraySort (compareFn ob) (contents s items)
    \<and> mset (contents s' items) = mset (contents s items)"
  using assms by (auto simp: OrderBy_apply_def contents_def mset_arraySort)

theorem OrderBy_apply_in_place_witness:
  "fst (OrderBy_apply \<lparr>property = (\<lambda>x. x), direction = asc\<rparr> 0 (oneArray [2, 1, 3])) = 0
   \<and> fresh (arrays (snd (OrderBy_apply \<lparr>property = (\<lambda>x. x), direction = asc\<rparr> 0
        (oneArray [2, 1, 3])))) = fresh (arrays (oneArray [2, 1, 3]))
   \<and> contents (oneArray [2, 1, 3]) 0 = [2, 1, 3]
   \<and> contents (snd (OrderBy_apply \<lparr>property = (\<lambda>x. x), direction = asc\<rparr> 0
        (oneArray [2, 1, 3]))) 0 = [1, 2, 3]"
proof -
  let ?a = "\<lparr>property = (\<lambda>x::nat. x), direction = asc\<rparr> :: (nat, nat) OrderBy"
  let ?s = "oneArray [2, 1, 3]"
  have a: "OrderBy_apply ?a 0 ?s = (fst (OrderBy_apply ?a 0 ?s), snd (OrderBy_apply ?a 0 ?s))"
    by simp
  have "arraySort (compareFn ?a) (contents ?s 0) = [1, 2, 3]"
    by (simp add: store_simps builder_simps)
  moreover have "contents ?s 0 = [2, 1, 3]"
    by (simp add: store_simps)
  ultimately show ?thesis
    using OrderBy_apply_in_place [OF a] by simp
qed

section \<open>Criteria.create\<close>

lemma filterAt_positions:
  "filterAt p k xs = Inr zs \<Longrightarrow>
     zs = map fst (filter (\<lambda>(x, i). p x i = Inr True) (zip xs [k ..< k + length xs]))"
proof (induction xs arbitrary: k zs)
  case Nil
  then show ?case by simp
next
  case (Cons x xs)
  from Cons.prems obtain selected ys where p: "p x k = Inr selected"
    and ys: "filterAt p (Suc k) xs = Inr ys" and zs: "zs = (if selected then x # ys else ys)"
    by (auto split: sum.splits)
  have "[k ..< k + length (x # xs)] = k # [Suc k ..< Suc k + length xs]"
    by (subst upt_rec) simp
  with Cons.IH [OF ys] p zs show ?case by simp
qed

text \<open>
  A predicate with a second, defaulted parameter: \<^verbatim>\<open>filter\<close> passes the index in its place.
  On \<open>[5, 20, 3]\<close> the criteria made from \<^verbatim>\<open>(x, threshold = 10) => x > threshold\<close> returns
  \<open>[5, 20, 3]\<close>, while the items for which the predicate is true are \<open>[20]\<close>. And a
  predicate that throws makes \<^verbatim>\<open>meetCriteria\<close> throw: nothing is returned.
\<close>

theorem create_predicate_counterexample:
  "returned (meetCriteria 1 (create (\<lambda>item k obj h. Inr (greaterThan item (Some k), h))) 0
      (oneArray [5, 20, 3])) = Some [5, 20, 3]
   \<and> filter (\<lambda>item. greaterThan item None) [5, 20, 3] = [20]
   \<and> thrownBy (meetCriteria 1 (create (\<lambda>item k obj h. Inl (Thrown ''out of range''))) 0
      (oneArray [5, 20, 3])) = Some (Thrown ''out of range'')"
  by code_simp

text \<open>
  C8, amended. \<^verbatim>\<open>Criteria.create(p).meetCriteria(items)\<close> hands \<open>p\<close> to \<^verbatim>\<open>filter\<close>, which calls
  \<^verbatim>\<open>p(item, index, items)\<close> position by position.

  \<^item> For an empty input it returns a new empty array, whatever \<open>p\<close> is.

  \<^item> For a predicate without side effects it returns a new array holding exactly the items
    at whose position the call returned true, in their input order; if a call throws,
    the first throw is what \<^verbatim>\<open>meetCriteria\<close> throws.

  \<^item> For a predicate that looks at the item alone and does not throw it returns a new
    array holding exactly the items for which the predicate is true, in their input
    order.

  The new array takes the next free address; no other array and no builder changes.
\<close>

theorem create_filter:
  "(contents s items = [] \<longrightarrow>
      meetCriteria (Suc n) (create predicate) items s = Return (allocArray [] s))
   \<and> meetCriteria (Suc n) (create (pureCallback p)) items s =
       (case filterAt (\<lambda>x k. p x k (contents s items)) 0 (contents s items) of
          Inl e \<Rightarrow> Throw e
        | Inr ys \<Rightarrow> Return (allocArray ys s))
   \<and> meetCriteria (Suc n) (create (itemOnly q)) items s =
       Return (allocArray (filter q (contents s items)) s)
   \<and> (filterAt p' k xs = Inr zs \<longrightarrow>
        zs = map fst (filter (\<lambda>(x, i). p' x i = Inr True) (zip xs [k ..< k + length xs])))
   \<and> (case allocArray ys s of (r, s') \<Rightarrow>
        r = fresh (arrays s) \<and> contents s' r = ys
        \<and> (\<forall>a. a \<noteq> r \<longrightarrow> contents s' a = contents s a)
        \<and> builders s' = builders s)"
proof (intro conjI impI)
  assume "contents s items = []"
  then have "arrayFilter predicate items (arrays s) = Inr (newArray [] (arrays s))"
    by (simp add: arrayFilter_def contents_def)
  then show "meetCriteria (Suc n) (create predicate) items s = Return (allocArray [] s)"
    unfolding create_def meetCriteria_Create by (simp add: allocArray_def newArray_def)
next
  have "arrayFilter (pureCallback p) items (arrays s) =
      (case filterAt (\<lambda>x k. p x k (contents s items)) 0 (contents s items) of
         Inl e \<Rightarrow> Inl e
       | Inr ys \<Rightarrow> Inr (newArray ys (arrays s)))"
    unfolding contents_def by (rule arrayFilter_pureCallback)
  then show "meetCriteria (Suc n) (create (pureCallback p)) items s =
      (case filterAt (\<lambda>x k. p x k (contents s items)) 0 (contents s items) of
         Inl e \<Rightarrow> Throw e
       | Inr ys \<Rightarrow> Return (allocArray ys s))"
    unfolding create_def meetCriteria_Create
    by (simp add: allocArray_def newArray_def split: sum.splits)
next
  show "meetCriteria (Suc n) (create (itemOnly q)) items s =
      Return (allocArray (filter q (contents s items)) s)"
    by (rule meetCriteria_create_itemOnly)
next
  assume "filterAt p' k xs = Inr zs"
  then show "zs = map fst (filter (\<lambda>(x, i). p' x i = Inr True) (zip xs [k ..< k + length xs]))"
    by (rule filterAt_positions)
next
  show "case allocArray ys s of (r, s') \<Rightarrow>
      r = fresh (arrays s) \<and> contents s' r = ys
      \<and> (\<forall>a. a \<noteq> r \<longrightarrow> contents s' a = contents s a)
      \<and> builders s' = builders s"
    by (simp add: allocArray_def newArray_def contents_def)
qed

theorem create_filter_witness:
  "contents (oneArray []) 0 = []
   \<and> (\<exists>r s'. meetCriteria (Suc 0) (create (\<lambda>item k obj h. Inl (Thrown ''out of range''))) 0
          (oneArray []) = Return (r, s')
        \<and> contents s' r = [])
   \<and> (\<exists>r s'. meetCriteria (Suc 0) (create (itemOnly (\<lambda>x. 1 < x))) 0 (oneArray [2, 1, 3])
          = Return (r, s')
        \<and> contents s' r = [2, 3] \<and> contents s' 0 = [2, 1, 3])"
proof -
  let ?throwing = "\<lambda>(item::nat) (k::nat) (obj::addr) (h::nat arrays).
      Inl (Thrown ''out of range'') :: error + bool \<times> nat arrays"
  have e: "contents (oneArray []) 0 = []"
    and x: "contents (oneArray [2, 1, 3]) 0 = [2, 1, 3]"
    by (simp_all add: store_simps)
  from e create_filter [of "oneArray []" 0 0 ?throwing]
  have 1: "meetCriteria (Suc 0) (create ?throwing) 0 (oneArray []) = Return (allocArray [] (oneArray []))"
    by blast
  from create_filter [of "oneArray [2, 1, 3]" 0 0 _ _ "\<lambda>x. 1 < x"]
  have 2: "meetCriteria (Suc 0) (create (itemOnly (\<lambda>x. 1 < x))) 0 (oneArray [2, 1, 3]) =
      Return (allocArray (filter (\<lambda>x. 1 < x) (contents (oneArray [2, 1, 3]) 0)) (oneArray [2, 1, 3]))"
    by blast
  have 3: "contents (snd (allocArray [] (oneArray []))) (fst (allocArray [] (oneArray []))) = []"
    and 4: "contents (snd (allocArray [2, 3] (oneArray [2, 1, 3])))
        (fst (allocArray [2, 3] (oneArray [2, 1, 3]))) = [2, 3]"
    and 5: "contents (snd (allocArray [2, 3] (oneArray [2, 1, 3]))) 0 = [2, 1, 3]"
    by (simp_all add: store_simps)
  from 2 x have m2: "meetCriteria (Suc 0) (create (itemOnly (\<lambda>x. 1 < x))) 0 (oneArray [2, 1, 3]) =
      Return (fst (allocArray [2, 3] (oneArray [2, 1, 3])), snd (allocArray [2, 3] (oneArray [2, 1, 3])))"
    by (simp del: meetCriteria.simps)
  from 1 have m1: "meetCriteria (Suc 0) (create ?throwing) 0 (oneArray []) =
      Return (fst (allocArray [] (oneArray [])), snd (allocArray [] (oneArray [])))"
    by (simp del: meetCriteria.simps)
  from e m1 m2 3 4 5 show ?thesis by blast
qed

section \<open>CriteriaBuilder\<close>

lemma meetCriteria_le:
  "n \<le> m \<Longrightarrow> meetCriteria n c items s \<noteq> OutOfFuel \<Longrightarrow>
     meetCriteria m c items s = meetCriteria n c items s"
proof (induction m)
  case 0
  then show ?case by simp
next
  case (Suc m)
  show ?case
  proof (cases "n = Suc m")
    case True
    then show ?thesis by simp
  next
    case False
    with Suc have eq: "meetCriteria m c items s = meetCriteria n c items s" by simp
    with Suc.prems have "meetCriteria m c items s \<noteq> OutOfFuel" by simp
    then have "meetCriteria (Suc m) c items s = meetCriteria m c items s"
      by (rule meetCriteria_Suc)
    with eq show ?thesis by (simp del: meetCriteria.simps)
  qed
qed

lemma reduceChain_le:
  fixes s :: "('a, 'k::linorder) state"
  assumes "n \<le> m" and "reduceChain (meetCriteria n) cs items s = Return res"
  shows "reduceChain (meetCriteria m) cs items s = Return res"
proof -
  have "reduceChain (meetCriteria m) cs items s = reduceChain (meetCriteria n) cs items s"
  proof (rule reduceChain_mono)
    fix c r and t :: "('a, 'k) state"
    assume "meetCriteria n c r t \<noteq> OutOfFuel"
    with assms(1) show "meetCriteria m c r t = meetCriteria n c r t"
      by (rule meetCriteria_le)
  next
    from assms(2) show "reduceChain (meetCriteria n) cs items s \<noteq> OutOfFuel" by simp
  qed
  with assms(2) show ?thesis by simp
qed

lemma reduceChain_returnsChain:
  "(\<exists>n. reduceChain (meetCriteria n) cs items s = Return res) \<longleftrightarrow> returnsChain cs items s res"
proof (induction cs arbitrary: items s)
  case Nil
  then show ?case by auto
next
  case (Cons c cs)
  show ?case
  proof
    assume "\<exists>n. reduceChain (meetCriteria n) (c # cs) items s = Return res"
    then obtain n r1 s1 where c: "meetCriteria n c items s = Return (r1, s1)"
      and rest: "reduceChain (meetCriteria n) cs r1 s1 = Return res"
      by (auto simp: andThen_Return_iff)
    from rest have "returnsChain cs r1 s1 res" using Cons.IH by blast
    with c show "returnsChain (c # cs) items s res"
      by (auto intro: returnsI)
  next
    assume "returnsChain (c # cs) items s res"
    then obtain r1 s1 where c: "returns c items s (r1, s1)"
      and rest: "returnsChain cs r1 s1 res" by auto
    from c obtain n where n: "meetCriteria n c items s = Return (r1, s1)"
      by (auto simp: returns_def)
    from rest obtain m where m: "reduceChain (meetCriteria m) cs r1 s1 = Return res"
      using Cons.IH by blast
    have "meetCriteria (max n m) c items s = Return (r1, s1)"
      using n by (rule meetCriteria_mono [rotated]) simp
    moreover have "reduceChain (meetCriteria (max n m)) cs r1 s1 = Return res"
      using m by (rule reduceChain_le [rotated]) simp
    ultimately have "reduceChain (meetCriteria (max n m)) (c # cs) items s = Return res"
      by simp
    then show "\<exists>n. reduceChain (meetCriteria n) (c # cs) items s = Return res" ..
  qed
qed

lemma reduceChain_builders:
  assumes call: "\<And>c r s r' s'. call c r s = Return (r', s') \<Longrightarrow>
      builders s' = builders s \<and> freshBuilder s' = freshBuilder s"
    and "reduceChain call cs r s = Return (r', s')"
  shows "builders s' = builders s \<and> freshBuilder s' = freshBuilder s"
  using assms(2)
proof (induction cs arbitrary: r s)
  case Nil
  then show ?case by simp
next
  case (Cons c cs)
  then obtain r1 s1 where c: "call c r s = Return (r1, s1)"
    and rest: "reduceChain call cs r1 s1 = Return (r', s')"
    by (auto simp: andThen_Return_iff)
  from rest have "builders s' = builders s1 \<and> freshBuilder s' = freshBuilder s1"
    by (rule Cons.IH)
  with call [OF c] show ?case by simp
qed

lemma allocArray_builders:
  "allocArray xs s = (r, s') \<Longrightarrow> builders s' = builders s \<and> freshBuilder s' = freshBuilder s"
  by (auto simp: allocArray_def newArray_def)

lemma OrderBy_apply_builders:
  "OrderBy_apply ob items s = (r, s') \<Longrightarrow> builders s' = builders s \<and> freshBuilder s' = freshBuilder s"
  by (auto simp: OrderBy_apply_def)

lemma meetCriteria_builders:
  fixes s :: "('a, 'k::linorder) state"
  shows "meetCriteria n c items s = Return (r, s') \<Longrightarrow>
    builders s' = builders s \<and> freshBuilder s' = freshBuilder s"
proof (induction n arbitrary: c items s r s')
  case 0
  then show ?case by simp
next
  case (Suc n)
  note IH = Suc.IH
  show ?case
  proof (cases c)
    case (Create p)
    with Suc.prems show ?thesis
      by (auto split: sum.splits)
  next
    case (AndCriteria a b)
    with Suc.prems obtain r1 s1 where "meetCriteria n a items s = Return (r1, s1)"
      and "meetCriteria n b r1 s1 = Return (r, s')"
      unfolding AndCriteria meetCriteria_And andThen_Return_iff by auto
    then show ?thesis using IH [of a items s r1 s1] IH [of b r1 s1 r s'] by simp
  next
    case (OrCriteria a b)
    with Suc.prems obtain ra s1 rb s2 where "meetCriteria n a items s = Return (ra, s1)"
      and "meetCriteria n b items s1 = Return (rb, s2)"
      and "allocArray (newSet (contents s2 ra @ contents s2 rb)) s2 = (r, s')"
      unfolding OrCriteria meetCriteria_Or by (auto simp: andThen_Return_iff)
    then show ?thesis
      using IH [of a items s ra s1] IH [of b items s1 rb s2] allocArray_builders [of _ s2 r s']
      by simp
  next
    case (NotCriteria a)
    with Suc.prems obtain rc s1 xs where "meetCriteria n a items s = Return (rc, s1)"
      and "allocArray xs s1 = (r, s')"
      unfolding NotCriteria meetCriteria_Not andThen_Return_iff by auto
    then show ?thesis
      using IH [of a items s rc s1] allocArray_builders [of xs s1 r s'] by simp
  next
    case (Built b)
    with Suc.prems obtain r1 s1 where
      chain: "reduceChain (meetCriteria n) (criteriaChain (builders s b)) items s = Return (r1, s1)"
      and fin: "(case orderBy (builders s1 b) of None \<Rightarrow> Return (r1, s1)
          | Some ob \<Rightarrow> Return (OrderBy_apply ob r1 s1)) = Return (r, s')"
      unfolding Built meetCriteria_Built andThen_Return_iff by auto
    have 1: "builders s1 = builders s \<and> freshBuilder s1 = freshBuilder s"
      using IH chain by (rule reduceChain_builders)
    from fin have "builders s' = builders s1 \<and> freshBuilder s' = freshBuilder s1"
      by (auto split: option.splits dest: OrderBy_apply_builders)
    with 1 show ?thesis by simp
  next
    case (Custom f)
    with Suc.prems show ?thesis
      by (auto split: sum.splits)
  qed
qed

lemma returnsChain_builders:
  "returnsChain cs items s (r, s') \<Longrightarrow> builders s' = builders s \<and> freshBuilder s' = freshBuilder s"
proof (induction cs arbitrary: items s)
  case Nil
  then show ?case by simp
next
  case (Cons c cs)
  then obtain r1 s1 where c: "returns c items s (r1, s1)"
    and rest: "returnsChain cs r1 s1 (r, s')" by auto
  from c have "builders s1 = builders s \<and> freshBuilder s1 = freshBuilder s"
    by (auto simp: returns_def dest: meetCriteria_builders)
  with Cons.IH [OF rest] show ?case by simp
qed

lemma returns_Built:
  "returns (Built b) items s res \<longleftrightarrow>
     (\<exists>r1 s1. returnsChain (criteriaChain (builders s b)) items s (r1, s1) \<and>
        res = (case orderBy (builders s b) of
                 None \<Rightarrow> (r1, s1)
               | Some ob \<Rightarrow> OrderBy_apply ob r1 s1))"
proof
  assume "returns (Built b) items s res"
  then obtain n where n: "meetCriteria n (Built b) items s = Return res"
    by (auto simp: returns_def)
  then obtain k where k: "n = Suc k" by (cases n) auto
  from n obtain r1 s1 where
    chain: "reduceChain (meetCriteria k) (criteriaChain (builders s b)) items s = Return (r1, s1)"
    and fin: "(case orderBy (builders s1 b) of None \<Rightarrow> Return (r1, s1)
        | Some ob \<Rightarrow> Return (OrderBy_apply ob r1 s1)) = Return res"
    unfolding k meetCriteria_Built andThen_Return_iff by auto
  from chain have rc: "returnsChain (criteriaChain (builders s b)) items s (r1, s1)"
    using reduceChain_returnsChain by blast
  then have "builders s1 = builders s" by (auto dest: returnsChain_builders)
  with fin have "res = (case orderBy (builders s b) of None \<Rightarrow> (r1, s1)
      | Some ob \<Rightarrow> OrderBy_apply ob r1 s1)"
    by (auto split: option.splits)
  with rc show "\<exists>r1 s1. returnsChain (criteriaChain (builders s b)) items s (r1, s1) \<and>
        res = (case orderBy (builders s b) of None \<Rightarrow> (r1, s1) | Some ob \<Rightarrow> OrderBy_apply ob r1 s1)"
    by blast
next
  assume "\<exists>r1 s1. returnsChain (criteriaChain (builders s b)) items s (r1, s1) \<and>
        res = (case orderBy (builders s b) of None \<Rightarrow> (r1, s1) | Some ob \<Rightarrow> OrderBy_apply ob r1 s1)"
  then obtain r1 s1 where rc: "returnsChain (criteriaChain (builders s b)) items s (r1, s1)"
    and res: "res = (case orderBy (builders s b) of None \<Rightarrow> (r1, s1)
      | Some ob \<Rightarrow> OrderBy_apply ob r1 s1)" by blast
  from rc obtain n where
    n: "reduceChain (meetCriteria n) (criteriaChain (builders s b)) items s = Return (r1, s1)"
    using reduceChain_returnsChain by blast
  from rc have "builders s1 = builders s" by (auto dest: returnsChain_builders)
  with n res have "meetCriteria (Suc n) (Built b) items s = Return res"
    unfolding meetCriteria_Built by (auto split: option.splits)
  then show "returns (Built b) items s res" by (rule returnsI)
qed

text \<open>
  C7. The composite built from a builder that has no criteria and no ordering directive
  (in particular from a builder just created) returns the array it is given, whatever it
  holds, and changes nothing in the store.
\<close>

theorem build_empty_identity:
  "(criteriaChain (builders s this) = [] \<and> orderBy (builders s this) = None \<longrightarrow>
      meetCriteria (Suc n) (fst (build this s)) items s = Return (items, s))
   \<and> (case newCriteriaBuilder s of (b, s') \<Rightarrow>
        meetCriteria (Suc n) (fst (build b s')) items s' = Return (items, s'))"
proof (intro conjI impI)
  assume "criteriaChain (builders s this) = [] \<and> orderBy (builders s this) = None"
  then have "meetCriteria (Suc n) (Built this) items s = Return (items, s)"
    unfolding meetCriteria_Built by simp
  then show "meetCriteria (Suc n) (fst (build this s)) items s = Return (items, s)"
    by (simp only: build_def fst_conv)
next
  obtain b s' where new: "newCriteriaBuilder s = (b, s')"
    by (cases "newCriteriaBuilder s")
  then have "criteriaChain (builders s' b) = []" and "orderBy (builders s' b) = None"
    by (auto simp: newCriteriaBuilder_def)
  then have "meetCriteria (Suc n) (Built b) items s' = Return (items, s')"
    unfolding meetCriteria_Built by simp
  with new show "case newCriteriaBuilder s of (b, s') \<Rightarrow>
      meetCriteria (Suc n) (fst (build b s')) items s' = Return (items, s')"
    by (simp only: build_def fst_conv prod.case)
qed

theorem build_empty_identity_witness:
  "meetCriteria (Suc 0) (fst (build 0 (snd (newCriteriaBuilder (oneArray []))))) 0
      (snd (newCriteriaBuilder (oneArray []))) = Return (0, snd (newCriteriaBuilder (oneArray [])))
   \<and> contents (snd (newCriteriaBuilder (oneArray []))) 0 = []"
proof -
  let ?s = "snd (newCriteriaBuilder (oneArray []))"
  have "criteriaChain (builders ?s 0) = [] \<and> orderBy (builders ?s 0) = None"
    by (simp add: newCriteriaBuilder_def oneArray_def)
  moreover have "contents ?s 0 = []"
    by (simp add: newCriteriaBuilder_def store_simps)
  ultimately show ?thesis
    using build_empty_identity [of ?s 0 0 0] by blast
qed

text \<open>
  C3. For the builder made by \<^verbatim>\<open>new CriteriaBuilder().addCriteria(a).addCriteria(b)
  .setOrderBy(k, "desc")\<close>, evaluating the composite is evaluating \<open>a\<close> on the input, \<open>b\<close> on what
  \<open>a\<close> returned, and \<^verbatim>\<open>OrderBy(k, "desc").apply\<close> on what \<open>b\<close> returned. In general a composite
  folds the input through the builder's chain from left to right and then applies the
  ordering directive if there is one.
\<close>

theorem build_composite:
  assumes "newCriteriaBuilder s0 = (b0, s1)"
    and "addCriteria b0 a s1 = (b1, s2)"
    and "addCriteria b1 b s2 = (b2, s3)"
    and "setOrderBy b2 k (Some desc) s3 = (b3, s4)"
    and "build b3 s4 = (composite, s)"
  shows "(returns composite items s res \<longleftrightarrow>
            (\<exists>r1 t1 r2 t2. returns a items s (r1, t1) \<and> returns b r1 t1 (r2, t2) \<and>
               res = OrderBy_apply (newOrderBy k (Some desc)) r2 t2))
    \<and> (returns (fst (build this t)) items t res' \<longleftrightarrow>
            (\<exists>r1 t1. returnsChain (criteriaChain (builders t this)) items t (r1, t1) \<and>
               res' = (case orderBy (builders t this) of
                         None \<Rightarrow> (r1, t1)
                       | Some ob \<Rightarrow> OrderBy_apply ob r1 t1)))"
proof -
  from assms have comp: "composite = Built b0"
    and chain: "criteriaChain (builders s b0) = [a, b]"
    and ord: "orderBy (builders s b0) = Some (newOrderBy k (Some desc))"
    by (auto simp: newCriteriaBuilder_def addCriteria_def setOrderBy_def build_def)
  show ?thesis
    unfolding comp build_def fst_conv returns_Built chain ord
    by auto
qed

theorem build_composite_witness:
  "\<exists>res r1 t1 r2 t2.
     returns (Built 0) 0
       (snd (setOrderBy 0 (\<lambda>x. x) (Some desc)
         (snd (addCriteria 0 (create (itemOnly (\<lambda>x. x < 4)))
           (snd (addCriteria 0 (create (itemOnly (\<lambda>x. 1 < x)))
             (snd (newCriteriaBuilder (oneArray [1, 2, 3, 4]))))))))) res
     \<and> returns (create (itemOnly (\<lambda>x. 1 < x))) 0
       (snd (setOrderBy 0 (\<lambda>x. x) (Some desc)
         (snd (addCriteria 0 (create (itemOnly (\<lambda>x. x < 4)))
           (snd (addCriteria 0 (create (itemOnly (\<lambda>x. 1 < x)))
             (snd (newCriteriaBuilder (oneArray [1, 2, 3, 4]))))))))) (r1, t1)
     \<and> returns (create (itemOnly (\<lambda>x. x < 4))) r1 t1 (r2, t2)
     \<and> res = OrderBy_apply (newOrderBy (\<lambda>x. x) (Some desc)) r2 t2
     \<and> returned (Return res) = Some [3, 2]"
proof -
  let ?a = "create (itemOnly (\<lambda>x::nat. 1 < x))" and ?b = "create (itemOnly (\<lambda>x::nat. x < 4))"
  let ?s1 = "snd (newCriteriaBuilder (oneArray [1, 2, 3, 4]))"
  let ?s2 = "snd (addCriteria 0 ?a ?s1)"
  let ?s3 = "snd (addCriteria 0 ?b ?s2)"
  let ?s4 = "snd (setOrderBy 0 (\<lambda>x. x) (Some desc) ?s3)"
  have 1: "newCriteriaBuilder (oneArray [1, 2, 3, 4]) = (0, ?s1)"
    by (simp add: newCriteriaBuilder_def oneArray_def)
  have 2: "addCriteria 0 ?a ?s1 = (0, ?s2)" by (simp add: addCriteria_def)
  have 3: "addCriteria 0 ?b ?s2 = (0, ?s3)" by (simp add: addCriteria_def)
  have 4: "setOrderBy 0 (\<lambda>x. x) (Some desc) ?s3 = (0, ?s4)" by (simp add: setOrderBy_def)
  have 5: "build 0 ?s4 = (Built 0, ?s4)" by (simp add: build_def)
  have "\<exists>res. meetCriteria (Suc (Suc 0)) (Built 0) 0 ?s4 = Return res
      \<and> returned (Return res) = Some [3, 2]"
    by (simp add: store_simps builder_simps)
  then obtain res where res: "returns (Built 0) 0 ?s4 res"
    and out: "returned (Return res) = Some [3, 2]"
    by (blast intro: returnsI)
  from res out show ?thesis
    using build_composite [OF 1 2 3 4 5, of 0 res] by blast
qed

text \<open>
  A composite built before the builder is changed: on the input \<open>[2, 1, 3]\<close> the composite
  of a new builder returns \<open>[2, 1, 3]\<close>; after \<^verbatim>\<open>addCriteria(create(x > 1))\<close> on the builder
  the same composite returns \<open>[2, 3]\<close>, and after \<^verbatim>\<open>setOrderBy\<close> instead it returns
  \<open>[1, 2, 3]\<close>.
\<close>

theorem build_snapshot_counterexample:
  "returned (meetCriteria 2 (fst (build 0 (snd (newCriteriaBuilder (oneArray [2, 1, 3]))))) 0
      (snd (newCriteriaBuilder (oneArray [2, 1, 3])))) = Some [2, 1, 3]
   \<and> returned (meetCriteria 2 (fst (build 0 (snd (newCriteriaBuilder (oneArray [2, 1, 3]))))) 0
      (snd (addCriteria 0 (create (itemOnly (\<lambda>x. 1 < x))) (snd (newCriteriaBuilder (oneArray [2, 1, 3]))))))
      = Some [2, 3]
   \<and> returned (meetCriteria 2 (fst (build 0 (snd (newCriteriaBuilder (oneArray [2, 1, 3]))))) 0
      (snd (setOrderBy 0 (\<lambda>x. x) None (snd (newCriteriaBuilder (oneArray [2, 1, 3]))))))
      = Some [1, 2, 3]"
  by code_simp

text \<open>
  C1, amended. \<^verbatim>\<open>build()\<close> copies nothing: it leaves the builder as it is, and the composite
  it returns is the same whatever the builder holds at that moment. Each evaluation of a
  composite reads the builder then: after \<^verbatim>\<open>addCriteria(c)\<close> every composite of that builder,
  built before or after, folds the input through the old chain and then \<open>c\<close>; after
  \<^verbatim>\<open>setOrderBy(k, d)\<close> every composite of it applies the new ordering directive.
\<close>

theorem build_reads_builder:
  "fst (build this s0) = fst (build this s) \<and> snd (build this s) = s
   \<and> (returns (fst (build this s0)) items (snd (addCriteria this c s)) res \<longleftrightarrow>
        (\<exists>r1 s1. returnsChain (criteriaChain (builders s this) @ [c]) items
                    (snd (addCriteria this c s)) (r1, s1) \<and>
           res = (case orderBy (builders s this) of
                    None \<Rightarrow> (r1, s1)
                  | Some ob \<Rightarrow> OrderBy_apply ob r1 s1)))
   \<and> (returns (fst (build this s0)) items (snd (setOrderBy this k d s)) res' \<longleftrightarrow>
        (\<exists>r1 s1. returnsChain (criteriaChain (builders s this)) items
                    (snd (setOrderBy this k d s)) (r1, s1) \<and>
           res' = OrderBy_apply (newOrderBy k d) r1 s1))"
proof -
  have d: "newOrderBy k (Some (case d of None \<Rightarrow> asc | Some d' \<Rightarrow> d')) = newOrderBy k d"
    by (cases d) (simp_all add: newOrderBy_def)
  show ?thesis
    unfolding build_def fst_conv snd_conv returns_Built
    by (simp add: addCriteria_def setOrderBy_def d)
qed

theorem build_reads_builder_witness:
  "\<exists>res r1 s1.
     returns (fst (build 0 (snd (newCriteriaBuilder (oneArray [2, 1, 3]))))) 0
       (snd (addCriteria 0 (create (itemOnly (\<lambda>x. 1 < x))) (snd (newCriteriaBuilder (oneArray [2, 1, 3]))))) res
     \<and> returnsChain
       (criteriaChain (builders (snd (newCriteriaBuilder (oneArray [2, 1, 3]))) 0)
          @ [create (itemOnly (\<lambda>x. 1 < x))]) 0
       (snd (addCriteria 0 (create (itemOnly (\<lambda>x. 1 < x))) (snd (newCriteriaBuilder (oneArray [2, 1, 3])))))
       (r1, s1)
     \<and> returned (Return res) = Some [2, 3]"
proof -
  let ?s = "snd (newCriteriaBuilder (oneArray [2, 1, 3]))"
  let ?c = "create (itemOnly (\<lambda>x::nat. 1 < x))"
  have "\<exists>res. meetCriteria (Suc (Suc 0)) (fst (build 0 ?s)) 0 (snd (addCriteria 0 ?c ?s)) = Return res
      \<and> returned (Return res) = Some [2, 3]"
    by (simp add: store_simps builder_simps)
  then obtain res where res: "returns (fst (build 0 ?s)) 0 (snd (addCriteria 0 ?c ?s)) res"
    and out: "returned (Return res) = Some [2, 3]"
    by (blast intro: returnsI)
  from res out show ?thesis
    using build_reads_builder [of 0 ?s ?s 0 ?c res] by blast
qed

section \<open>Side effects\<close>


lemma agrees_Throw: "agrees s items (Throw err) run \<Longrightarrow> run = Throw err"
  by (simp add: agrees_def)

lemma agrees_OutOfFuel: "agrees s items OutOfFuel run \<Longrightarrow> run = OutOfFuel"
  by (simp add: agrees_def)


















end
